theory Spec2Isabelle
  imports Main
begin

section \<open>JavaScript values and objects\<close>

text \<open>
  The values the setters receive. \<^verbatim>\<open>String(value)\<close> is the coercion
  \<^verbatim>\<open>setAttribute\<close> applies before storing. Numbers are left out: their
  textual form is floating-point formatting.
\<close>

datatype jsval = JStr string | JBool bool | JNull | JUndefined

fun String :: "jsval \<Rightarrow> string" where
  "String (JStr s) = s"
| "String (JBool True) = ''true''"
| "String (JBool False) = ''false''"
| "String JNull = ''null''"
| "String JUndefined = ''undefined''"

text \<open>
  The own properties of an object: a list in creation order, each key once. \<open>put\<close>
  stores an own property: it replaces the value of an existing key where it stands and
  creates a new key behind all the others.
\<close>

type_synonym 'v jsobj = "(string \<times> 'v) list"

fun put :: "string \<Rightarrow> 'v \<Rightarrow> 'v jsobj \<Rightarrow> 'v jsobj" where
  "put k v [] = [(k, v)]"
| "put k v ((k', v') # kvs) = (if k' = k then (k, v) # kvs else (k', v') # put k v kvs)"

text \<open>
  An object made by the literal \<^verbatim>\<open>{}\<close>: its own properties, and whether its
  prototype is still \<^verbatim>\<open>Object.prototype\<close>. The assignment \<^verbatim>\<open>obj[k] = v\<close>
  stores an own property, but for the key \<^verbatim>\<open>__proto__\<close>: while the object inherits
  that accessor and has no own property of the name, the assignment runs the inherited
  setter, which creates no property; it takes the prototype away when the value is
  \<^verbatim>\<open>null\<close> and does nothing for a string, a boolean or \<^verbatim>\<open>undefined\<close>.
\<close>

record plain =
  proto :: bool
  own :: "jsval jsobj"

definition assign :: "string \<Rightarrow> jsval \<Rightarrow> plain \<Rightarrow> plain" where
  "assign k v obj =
     (if k = ''__proto__'' \<and> proto obj \<and> map_of (own obj) k = None
      then (if v = JNull then obj\<lparr>proto := False\<rparr> else obj)
      else obj\<lparr>own := put k v (own obj)\<rparr>)"

definition is_digit :: "char \<Rightarrow> bool" where
  "is_digit c = (c \<in> set ''0123456789'')"

definition dec_val :: "string \<Rightarrow> nat" where
  "dec_val s = foldl (\<lambda>n c. 10 * n + (of_char c - 48)) 0 s"

text \<open>
  An array index is the canonical decimal form of an integer below \<open>2^32 - 1\<close>.
\<close>

definition is_array_index :: "string \<Rightarrow> bool" where
  "is_array_index s =
     (s \<noteq> [] \<and> list_all is_digit s \<and> (s = ''0'' \<or> hd s \<noteq> CHR ''0'')
      \<and> dec_val s < 2 ^ 32 - 1)"

text \<open>
  Modelled from the spec: \<^verbatim>\<open>forOwn\<close> (imported from \<^verbatim>\<open>../object/forOwn\<close>) is
  not among the sources. It calls the function once with the key and the value of every
  own property of the object ("applies \<^verbatim>\<open>setAttribute\<close> per entry"), in the order
  in which JavaScript enumerates own properties: array indices ascending, then the other
  keys in creation order. \<open>forOwn\<close> gives the entries in the order of the calls.
\<close>

definition forOwn :: "'v jsobj \<Rightarrow> (string \<times> 'v) list" where
  "forOwn obj =
     sort_key (\<lambda>kv. dec_val (fst kv)) (filter (\<lambda>kv. is_array_index (fst kv)) obj)
     @ filter (\<lambda>kv. \<not> is_array_index (fst kv)) obj"

section \<open>The target element and its host\<close>

text \<open>
  The calls \<^verbatim>\<open>processQueue\<close> makes on the element: \<^verbatim>\<open>classList.add\<close>,
  \<^verbatim>\<open>classList.remove\<close>, \<^verbatim>\<open>setAttribute\<close>, the assignment of a property and
  the assignment of a property of \<^verbatim>\<open>style\<close>.
\<close>

datatype domop =
    AddToken string
  | RemoveToken string
  | AttrSet string jsval
  | PropSet string jsval
  | StyleSet string jsval

datatype exn = NoElement | TypeError | UserError string | DOMException string

text \<open>
  The element is the host's, and so is what a call does to it: whether it throws, and
  the element it leaves. None of that is code of the wrapper, so the wrapper is modelled
  over any host: \<open>invoke\<close> gives the exception of a call, if any, and the element after
  it; \<open>contains\<close> is \<^verbatim>\<open>classList.contains\<close>.
\<close>

record 't host =
  invoke :: "domop \<Rightarrow> 't \<Rightarrow> exn option \<times> 't"
  contains :: "string \<Rightarrow> 't \<Rightarrow> bool"

text \<open>
  Calls made one after the other: the first exception ends the sequence, and the calls
  behind it are not made. \<open>made\<close> lists the calls made, the throwing one included.
\<close>

fun run :: "'t host \<Rightarrow> domop list \<Rightarrow> 't \<Rightarrow> exn option \<times> 't" where
  "run h [] t = (None, t)"
| "run h (x # xs) t =
     (case invoke h x t of (None, t') \<Rightarrow> run h xs t' | (Some e, t') \<Rightarrow> (Some e, t'))"


section \<open>The element wrapper and its queue\<close>

text \<open>
  A queue entry holds a class name (\<^verbatim>\<open>addClass\<close>, \<^verbatim>\<open>removeClass\<close>) or an
  object of pending values (\<^verbatim>\<open>attributes\<close>, \<^verbatim>\<open>properties\<close>,
  \<^verbatim>\<open>styles\<close>).
\<close>

datatype qval = QStr string | QObj plain

text \<open>
  What a callback passed to \<^verbatim>\<open>read\<close> or \<^verbatim>\<open>write\<close> does with the wrapper:
  it calls setters, \<^verbatim>\<open>reveal\<close>, \<^verbatim>\<open>read\<close> and \<^verbatim>\<open>write\<close> (with a callback
  or with none), one after the other, and it may throw.
\<close>

datatype cmd =
    Skip
  | Throw string
  | Seq cmd cmd
  | AddClass string
  | RemoveClass string
  | SetAttribute string jsval
  | SetProperty string jsval
  | SetStyle string jsval
  | SetAria string jsval
  | Reveal bool
  | Read cmd
  | Write cmd
  | WriteNoFunc

datatype payload = Instance | Failure exn

datatype settle = Pending | Fulfilled payload | Rejected payload

datatype frame = ReadFrame cmd nat | WriteFrame nat

text \<open>
  The fields of the class \<^verbatim>\<open>Element\<close>, then the global switch
  \<^verbatim>\<open>Toolkit.aria\<close> and the host's state: the callbacks registered with
  \<^verbatim>\<open>requestAnimationFrame\<close>, oldest first, and the promises created so far, a
  promise being its position in the list.
\<close>

record 't state =
  element :: "'t option"
  queue :: "qval jsobj"
  reading :: bool
  writing :: bool
  aria :: bool
  frames :: "frame list"
  promises :: "settle list"

text \<open>A method or a callback ends normally or by an exception, and leaves a state.\<close>

datatype 't outcome = Done "'t state" | Thrown exn "'t state"

definition resetQueue :: "'t state \<Rightarrow> 't state" where
  "resetQueue w =
     w\<lparr>queue := [(''attributes'', QObj \<lparr>proto = True, own = []\<rparr>),
                 (''properties'', QObj \<lparr>proto = True, own = []\<rparr>),
                 (''styles'', QObj \<lparr>proto = True, own = []\<rparr>)]\<rparr>"

definition addClass :: "string \<Rightarrow> 't state \<Rightarrow> 't state" where
  "addClass className w = w\<lparr>queue := put ''addClass'' (QStr className) (queue w)\<rparr>"

definition removeClass :: "string \<Rightarrow> 't state \<Rightarrow> 't state" where
  "removeClass className w = w\<lparr>queue := put ''removeClass'' (QStr className) (queue w)\<rparr>"

text \<open>
  \<^verbatim>\<open>this.queue.attributes\<close> and its two siblings: \<^verbatim>\<open>resetQueue\<close> creates the
  three objects and no method removes or replaces one by anything but an object, so the
  lookup finds an object in every state the wrapper reaches (\<open>wf_queue\<close> below).
\<close>

definition pending :: "string \<Rightarrow> qval jsobj \<Rightarrow> plain" where
  "pending name q =
     (case map_of q name of Some (QObj obj) \<Rightarrow> obj | _ \<Rightarrow> \<lparr>proto = True, own = []\<rparr>)"

definition setAttribute :: "string \<Rightarrow> jsval \<Rightarrow> 't state \<Rightarrow> 't state" where
  "setAttribute attribute v w =
     w\<lparr>queue := put ''attributes''
         (QObj (assign attribute (JStr (String v)) (pending ''attributes'' (queue w))))
         (queue w)\<rparr>"

definition setProperty :: "string \<Rightarrow> jsval \<Rightarrow> 't state \<Rightarrow> 't state" where
  "setProperty property v w =
     w\<lparr>queue := put ''properties''
         (QObj (assign property v (pending ''properties'' (queue w)))) (queue w)\<rparr>"

definition setStyle :: "string \<Rightarrow> jsval \<Rightarrow> 't state \<Rightarrow> 't state" where
  "setStyle property v w =
     w\<lparr>queue := put ''styles''
         (QObj (assign property v (pending ''styles'' (queue w)))) (queue w)\<rparr>"

definition setAttributes :: "jsval jsobj \<Rightarrow> 't state \<Rightarrow> 't state" where
  "setAttributes attributes w = fold (\<lambda>(k, v). setAttribute k v) (forOwn attributes) w"

definition setProperties :: "jsval jsobj \<Rightarrow> 't state \<Rightarrow> 't state" where
  "setProperties properties w = fold (\<lambda>(k, v). setProperty k v) (forOwn properties) w"

definition setStyles :: "jsval jsobj \<Rightarrow> 't state \<Rightarrow> 't state" where
  "setStyles properties w = fold (\<lambda>(k, v). setStyle k v) (forOwn properties) w"

text \<open>
  The body of the loop in \<^verbatim>\<open>processQueue\<close>: the calls on the element that one
  queue entry causes, in order. A key the \<^verbatim>\<open>switch\<close> does not list causes none.
\<close>

fun mutation :: "string \<times> qval \<Rightarrow> domop list" where
  "mutation (key, QStr c) =
     (if key = ''addClass'' then [AddToken c]
      else if key = ''removeClass'' then [RemoveToken c]
      else [])"
| "mutation (key, QObj obj) =
     (if key = ''attributes'' then map (\<lambda>(k, v). AttrSet k v) (forOwn (own obj))
      else if key = ''properties'' then map (\<lambda>(k, v). PropSet k v) (forOwn (own obj))
      else if key = ''styles'' then map (\<lambda>(k, v). StyleSet k v) (forOwn (own obj))
      else [])"

definition mutations :: "qval jsobj \<Rightarrow> domop list" where
  "mutations q = concat (map mutation (forOwn q))"

text \<open>
  \<^verbatim>\<open>processQueue\<close> has no \<^verbatim>\<open>try\<close>: an exception of a call on the element ends
  it at once, with the calls before it made and \<^verbatim>\<open>resetQueue\<close> not reached.
\<close>

definition processQueue :: "'t host \<Rightarrow> 't state \<Rightarrow> 't outcome" where
  "processQueue h w =
     (case element w of
        None \<Rightarrow> Thrown NoElement w
      | Some el \<Rightarrow>
          (case run h (mutations (queue w)) el of
             (None, el') \<Rightarrow> Done (resetQueue (w\<lparr>element := Some el'\<rparr>))
           | (Some e, el') \<Rightarrow> Thrown e (w\<lparr>element := Some el'\<rparr>)))"

definition hasClass :: "'t host \<Rightarrow> string \<Rightarrow> 't state \<Rightarrow> exn + bool" where
  "hasClass h className w =
     (case element w of
        None \<Rightarrow> Inl TypeError
      | Some el \<Rightarrow> Inr (contains h className el))"

text \<open>
  \<^verbatim>\<open>setArias\<close> hands every entry to \<^verbatim>\<open>setAria\<close>, which for the key
  \<^verbatim>\<open>toggled\<close> calls \<^verbatim>\<open>setArias\<close> back with two other keys.
\<close>

function setAria :: "string \<Rightarrow> jsval \<Rightarrow> 't state \<Rightarrow> 't state"
  and setArias :: "jsval jsobj \<Rightarrow> 't state \<Rightarrow> 't state" where
  "setAria key v w =
     (if \<not> aria w then w
      else if key = ''toggled'' then setArias [(''expanded'', v), (''selected'', v)] w
      else setAttribute (''aria-'' @ key) v w)"
| "setArias keys w = fold (\<lambda>(k, v) w'. setAria k v w') (forOwn keys) w"
  by pat_completeness auto
termination
proof (relation "measure (\<lambda>x. case x of
          Inl (key, v, w) \<Rightarrow> if key = ''toggled'' then 2 else 0
        | Inr (keys, w) \<Rightarrow> if ''toggled'' \<in> fst ` set keys then 3 else 1)")
  fix keys :: "jsval jsobj" and w w' :: "'t state" and x :: "string \<times> jsval" and k v
  assume "x \<in> set (forOwn keys)" and "(k, v) = x"
  then have "(k, v) \<in> set keys"
    by (auto simp: forOwn_def)
  then have "k = ''toggled'' \<Longrightarrow> ''toggled'' \<in> fst ` set keys"
    by force
  then show "(Inl (k, v, w'), Inr (keys, w)) \<in> measure (\<lambda>x. case x of
          Inl (key, v, w) \<Rightarrow> if key = ''toggled'' then 2 else 0
        | Inr (keys, w) \<Rightarrow> if ''toggled'' \<in> fst ` set keys then 3 else 1)"
    by simp
qed simp_all

definition reveal :: "bool \<Rightarrow> 't state \<Rightarrow> 't state" where
  "reveal dontShow w =
     setAria ''hidden'' (JBool False)
       (addClass ''show''
         (removeClass ''hide''
           (if \<not> dontShow then setStyle ''display'' (JStr []) w else w)))"

text \<open>
  The constructor: the field initialisers, then \<^verbatim>\<open>resetQueue\<close>. The second
  argument is the value of \<^verbatim>\<open>Toolkit.aria\<close>, \<open>True\<close> unless the page changes it.
\<close>

definition Element :: "'t option \<Rightarrow> bool \<Rightarrow> 't state" where
  "Element el a =
     resetQueue \<lparr>element = el, queue = [], reading = False, writing = False, aria = a,
                 frames = [], promises = []\<rparr>"

section \<open>The frame scheduler\<close>

text \<open>
  \<^verbatim>\<open>read\<close> and \<^verbatim>\<open>write\<close> return \<^verbatim>\<open>null\<close> or a promise. The continuation
  methods \<^verbatim>\<open>promise.write\<close> and \<^verbatim>\<open>promise.read\<close> only call \<^verbatim>\<open>then\<close>;
  they are not part of the model.
\<close>

datatype ret = Null | Promise nat

definition read :: "cmd \<Rightarrow> 't state \<Rightarrow> ret \<times> 't state" where
  "read func w =
     (if reading w then (Null, w)
      else let p = length (promises w)
           in (Promise p,
               w\<lparr>promises := promises w @ [Pending], frames := frames w @ [ReadFrame func p]\<rparr>))"

text \<open>
  \<^verbatim>\<open>write\<close>, given what its callback does (\<open>None\<close> when the argument is not a
  function). The callback runs at once, outside any \<^verbatim>\<open>try\<close>: its exception
  leaves \<^verbatim>\<open>write\<close> before the promise is created.
\<close>

definition write_with ::
  "('t state \<Rightarrow> 't outcome) option \<Rightarrow> 't state \<Rightarrow> (exn + ret) \<times> 't state" where
  "write_with func w =
     (if writing w then (Inr Null, w)
      else case (case func of
                   None \<Rightarrow> Done w
                 | Some f \<Rightarrow> (case f (w\<lparr>writing := True\<rparr>) of
                               Done w' \<Rightarrow> Done (w'\<lparr>writing := False\<rparr>)
                             | Thrown e w' \<Rightarrow> Thrown e w')) of
             Thrown e w' \<Rightarrow> (Inl e, w')
           | Done w' \<Rightarrow>
               (let p = length (promises w')
                in (Inr (Promise p),
                    w'\<lparr>promises := promises w' @ [Pending],
                       frames := frames w' @ [WriteFrame p]\<rparr>)))"

fun exec :: "cmd \<Rightarrow> 't state \<Rightarrow> 't outcome" where
  "exec Skip w = Done w"
| "exec (Throw msg) w = Thrown (UserError msg) w"
| "exec (Seq a b) w = (case exec a w of Done w' \<Rightarrow> exec b w' | Thrown e w' \<Rightarrow> Thrown e w')"
| "exec (AddClass c) w = Done (addClass c w)"
| "exec (RemoveClass c) w = Done (removeClass c w)"
| "exec (SetAttribute k v) w = Done (setAttribute k v w)"
| "exec (SetProperty k v) w = Done (setProperty k v w)"
| "exec (SetStyle k v) w = Done (setStyle k v w)"
| "exec (SetAria k v) w = Done (setAria k v w)"
| "exec (Reveal dontShow) w = Done (reveal dontShow w)"
| "exec (Read func) w = Done (snd (read func w))"
| "exec (Write func) w =
     (case write_with (Some (\<lambda>w'. exec func w')) w of
        (Inl e, w') \<Rightarrow> Thrown e w'
      | (Inr r, w') \<Rightarrow> Done w')"
| "exec WriteNoFunc w =
     (case write_with None w of
        (Inl e, w') \<Rightarrow> Thrown e w'
      | (Inr r, w') \<Rightarrow> Done w')"

definition "write" :: "cmd option \<Rightarrow> 't state \<Rightarrow> (exn + ret) \<times> 't state" where
  "write func w = write_with (map_option exec func) w"

text \<open>
  \<^verbatim>\<open>resolve\<close> and \<^verbatim>\<open>reject\<close> settle a promise that is still pending and do
  nothing to a settled one.
\<close>

definition settlePromise :: "nat \<Rightarrow> settle \<Rightarrow> 't state \<Rightarrow> 't state" where
  "settlePromise p s w =
     (if p < length (promises w) \<and> promises w ! p = Pending
      then w\<lparr>promises := (promises w)[p := s]\<rparr> else w)"

text \<open>
  The two functions handed to \<^verbatim>\<open>requestAnimationFrame\<close>. In the one of
  \<^verbatim>\<open>read\<close> the assignment \<^verbatim>\<open>this.reading = false\<close> stands inside the
  \<^verbatim>\<open>try\<close> block behind the call of the callback; the \<^verbatim>\<open>catch\<close> block
  only rejects.
\<close>

fun runFrame :: "'t host \<Rightarrow> frame \<Rightarrow> 't state \<Rightarrow> 't state" where
  "runFrame h (ReadFrame func p) w =
     (case exec func (w\<lparr>reading := True\<rparr>) of
        Done w' \<Rightarrow> settlePromise p (Fulfilled Instance) (w'\<lparr>reading := False\<rparr>)
      | Thrown e w' \<Rightarrow> settlePromise p (Rejected Instance) w')"
| "runFrame h (WriteFrame p) w =
     (case processQueue h w of
        Done w' \<Rightarrow> settlePromise p (Fulfilled Instance) w'
      | Thrown e w' \<Rightarrow> settlePromise p (Rejected Instance) w')"

text \<open>A frame tick runs the oldest registered callback, once.\<close>

definition tick :: "'t host \<Rightarrow> 't state \<Rightarrow> 't state" where
  "tick h w = (case frames w of [] \<Rightarrow> w | f # fs \<Rightarrow> runFrame h f (w\<lparr>frames := fs\<rparr>))"

fun ticks :: "'t host \<Rightarrow> nat \<Rightarrow> 't state \<Rightarrow> 't state" where
  "ticks h 0 w = w"
| "ticks h (Suc n) w = ticks h n (tick h w)"

section \<open>Notions the properties are stated with\<close>

text \<open>
  The shape of the queue in every state the wrapper reaches: the three objects of
  \<^verbatim>\<open>resetQueue\<close> come first, then \<^verbatim>\<open>addClass\<close> and
  \<^verbatim>\<open>removeClass\<close>, each at most once.
\<close>

fun class_entry :: "string \<times> qval \<Rightarrow> bool" where
  "class_entry (k, QStr c) = (k = ''addClass'' \<or> k = ''removeClass'')"
| "class_entry (k, QObj obj) = False"

fun wf_queue :: "qval jsobj \<Rightarrow> bool" where
  "wf_queue ((k1, QObj a) # (k2, QObj p) # (k3, QObj s) # cs) =
     (k1 = ''attributes'' \<and> k2 = ''properties'' \<and> k3 = ''styles''
      \<and> distinct (map fst (own a)) \<and> distinct (map fst (own p))
      \<and> distinct (map fst (own s))
      \<and> distinct (map fst cs) \<and> list_all class_entry cs)"
| "wf_queue q = False"

text \<open>Two states that differ in the queue at most.\<close>

definition same_but_queue :: "'t state \<Rightarrow> 't state \<Rightarrow> bool" where
  "same_but_queue w w' =
     (element w' = element w \<and> reading w' = reading w \<and> writing w' = writing w
      \<and> aria w' = aria w \<and> frames w' = frames w \<and> promises w' = promises w)"

text \<open>The state a method or a callback leaves, however it ends.\<close>

fun state_of :: "'t outcome \<Rightarrow> 't state" where
  "state_of (Done w) = w"
| "state_of (Thrown e w) = w"

text \<open>
  A sequence of calls of the five setters that assign to the queue. For the three that
  set a value: the value of the last call of one kind with one key, the value the queue
  holds for it, the key of the queue under which the kind is pending, and the values a
  list of calls on the element writes under one key of one kind, in order.
\<close>

datatype kind = Attribute | Property | Style

datatype call = CallAddClass string | CallRemoveClass string | Call kind string jsval

fun apply_call :: "call \<Rightarrow> 't state \<Rightarrow> 't state" where
  "apply_call (CallAddClass c) w = addClass c w"
| "apply_call (CallRemoveClass c) w = removeClass c w"
| "apply_call (Call Attribute k v) w = setAttribute k v w"
| "apply_call (Call Property k v) w = setProperty k v w"
| "apply_call (Call Style k v) w = setStyle k v w"

definition calls :: "call list \<Rightarrow> 't state \<Rightarrow> 't state" where
  "calls cs w = fold apply_call cs w"



fun queue_key :: "kind \<Rightarrow> string" where
  "queue_key Attribute = ''attributes''"
| "queue_key Property = ''properties''"
| "queue_key Style = ''styles''"



text \<open>
  For the two class setters: the calls of the two among a sequence, in order; the members
  of a list in the order in which each is first seen; and the calls on the class list
  that a flush makes after the sequence, as the amended claim C1 words it: add-class and
  remove-class in the order in which the two were first called, each with the class name
  of its last call.
\<close>

datatype classop = Add | Remove

fun class_call :: "call \<Rightarrow> (classop \<times> string) option" where
  "class_call (CallAddClass c) = Some (Add, c)"
| "class_call (CallRemoveClass c) = Some (Remove, c)"
| "class_call (Call kd k v) = None"

definition class_calls :: "call list \<Rightarrow> (classop \<times> string) list" where
  "class_calls cs = List.map_filter class_call cs"

fun first_seen :: "'a list \<Rightarrow> 'a list" where
  "first_seen [] = []"
| "first_seen (x # xs) = x # removeAll x (first_seen xs)"






text \<open>
  What the properties ask of a host. \<open>token_list\<close>: a call of \<^verbatim>\<open>classList.add\<close> or
  \<^verbatim>\<open>classList.remove\<close> that returns has added or removed its token and no other.
  \<open>keeps_classes\<close>: a call that returns leaves the class list as it was.
\<close>

definition token_list :: "'t host \<Rightarrow> bool" where
  "token_list h =
     (\<forall>c t t'.
        (invoke h (AddToken c) t = (None, t')
           \<longrightarrow> (\<forall>x. contains h x t' = (x = c \<or> contains h x t)))
      \<and> (invoke h (RemoveToken c) t = (None, t')
           \<longrightarrow> (\<forall>x. contains h x t' = (x \<noteq> c \<and> contains h x t))))"

definition keeps_classes :: "'t host \<Rightarrow> domop \<Rightarrow> bool" where
  "keeps_classes h x =
     (\<forall>t t' c. invoke h x t = (None, t') \<longrightarrow> contains h c t' = contains h c t)"

fun class_op :: "domop \<Rightarrow> bool" where
  "class_op (AddToken c) = True"
| "class_op (RemoveToken c) = True"
| "class_op x = False"

text \<open>What a call does to the set of classes of an element, on a host with \<open>token_list\<close>.\<close>

fun class_step :: "domop \<Rightarrow> string set \<Rightarrow> string set" where
  "class_step (AddToken c) S = insert c S"
| "class_step (RemoveToken c) S = S - {c}"
| "class_step x S = S"

section \<open>A small host\<close>

text \<open>
  A host to run the wrapper on: an element with a class list and the attributes,
  properties and styles set on it. Of the DOM it has what the runs below meet:
  \<^verbatim>\<open>classList.add\<close> and \<^verbatim>\<open>classList.remove\<close> throw for the empty token and
  for a token with white space; \<^verbatim>\<open>setAttribute\<close> throws for the empty name, stores
  the string form of its value and, for the name \<^verbatim>\<open>class\<close>, replaces the class
  list by the tokens of the value. No theorem about every host depends on it.
\<close>

record target =
  classList :: "string list"
  attrs :: "jsval jsobj"
  props :: "jsval jsobj"
  style :: "jsval jsobj"

definition is_space :: "char \<Rightarrow> bool" where
  "is_space c = (c \<in> set [CHR 0x09, CHR 0x0A, CHR 0x0C, CHR 0x0D, CHR 0x20])"

fun split :: "string \<Rightarrow> string \<Rightarrow> string list" where
  "split [] cur = (if cur = [] then [] else [cur])"
| "split (c # s) cur =
     (if is_space c then (if cur = [] then split s [] else cur # split s [])
      else split s (cur @ [c]))"

definition tokens :: "string \<Rightarrow> string list" where
  "tokens s = first_seen (split s [])"

definition token_error :: "string \<Rightarrow> exn option" where
  "token_error c =
     (if c = [] then Some (DOMException ''SyntaxError'')
      else if list_ex is_space c then Some (DOMException ''InvalidCharacterError'')
      else None)"

fun sample_invoke :: "domop \<Rightarrow> target \<Rightarrow> exn option \<times> target" where
  "sample_invoke (AddToken c) el =
     (case token_error c of
        Some e \<Rightarrow> (Some e, el)
      | None \<Rightarrow> (None, el\<lparr>classList :=
            (if c \<in> set (classList el) then classList el else classList el @ [c])\<rparr>))"
| "sample_invoke (RemoveToken c) el =
     (case token_error c of
        Some e \<Rightarrow> (Some e, el)
      | None \<Rightarrow> (None, el\<lparr>classList := removeAll c (classList el)\<rparr>))"
| "sample_invoke (AttrSet k v) el =
     (if k = [] then (Some (DOMException ''InvalidCharacterError''), el)
      else (None, el\<lparr>classList := (if k = ''class'' then tokens (String v) else classList el),
                     attrs := put k (JStr (String v)) (attrs el)\<rparr>))"
| "sample_invoke (PropSet k v) el = (None, el\<lparr>props := put k v (props el)\<rparr>)"
| "sample_invoke (StyleSet k v) el = (None, el\<lparr>style := put k v (style el)\<rparr>)"

definition sample :: "target host" where
  "sample = \<lparr>invoke = sample_invoke, contains = (\<lambda>c el. c \<in> set (classList el))\<rparr>"

text \<open>An element with no class, no attribute, no property and no style set.\<close>

definition bare :: target where
  "bare = \<lparr>classList = [], attrs = [], props = [], style = []\<rparr>"

section \<open>Objects and the enumeration of their keys\<close>

lemma forOwn_toggled:
  "forOwn [(''expanded'', v), (''selected'', v)] = [(''expanded'', v), (''selected'', v)]"
  by (simp add: forOwn_def is_array_index_def is_digit_def)

section \<open>The accessibility helper\<close>

declare setAria.simps [simp del] setArias.simps [simp del]

lemma setAria_plain:
  "key \<noteq> ''toggled'' \<Longrightarrow>
     setAria key v w = (if \<not> aria w then w else setAttribute (''aria-'' @ key) v w)"
  by (simp add: setAria.simps [of key])

lemma aria_setAttribute [simp]: "aria (setAttribute k x w) = aria w"
  by (simp add: setAttribute_def)

lemma setAria_unfold:
  "setAria key v w =
     (if \<not> aria w then w
      else if key = ''toggled''
        then setAttribute ''aria-selected'' v (setAttribute ''aria-expanded'' v w)
      else setAttribute (''aria-'' @ key) v w)"
proof (cases "key = ''toggled''")
  case False
  then show ?thesis by (simp add: setAria_plain)
next
  case True
  have "setArias [(''expanded'', v), (''selected'', v)] w =
          setAria ''selected'' v (setAria ''expanded'' v w)"
    by (simp add: setArias.simps forOwn_toggled)
  then show ?thesis
    using True by (simp add: setAria.simps [of "''toggled''"] setAria_plain)
qed

section \<open>Setters change the queue only\<close>

lemma fold_queue_only:
  assumes "\<And>x w. same_but_queue w (f x w)"
  shows "same_but_queue w (fold f xs w)"
proof (induction xs arbitrary: w)
  case Nil
  show ?case by (simp add: same_but_queue_def)
next
  case (Cons x xs)
  have "same_but_queue w (f x w)" by (rule assms)
  moreover have "same_but_queue (f x w) (fold f xs (f x w))" by (rule Cons.IH)
  ultimately show ?case by (simp add: same_but_queue_def)
qed

lemma addClass_queue_only: "same_but_queue w (addClass c w)"
  by (simp add: addClass_def same_but_queue_def)
lemma removeClass_queue_only: "same_but_queue w (removeClass c w)"
  by (simp add: removeClass_def same_but_queue_def)
lemma setAttribute_queue_only: "same_but_queue w (setAttribute k v w)"
  by (simp add: setAttribute_def same_but_queue_def)
lemma setProperty_queue_only: "same_but_queue w (setProperty k v w)"
  by (simp add: setProperty_def same_but_queue_def)
lemma setStyle_queue_only: "same_but_queue w (setStyle k v w)"
  by (simp add: setStyle_def same_but_queue_def)
lemma setAria_queue_only: "same_but_queue w (setAria key v w)"
  by (simp add: setAria_unfold setAttribute_def same_but_queue_def)

lemma same_but_queue_trans:
  "same_but_queue a b \<Longrightarrow> same_but_queue b c \<Longrightarrow> same_but_queue a c"
  by (simp add: same_but_queue_def)


lemma reveal_unfold:
  "reveal dontShow w =
     setAria ''hidden'' (JBool False)
       (addClass ''show''
         (removeClass ''hide''
           (if dontShow then w else setStyle ''display'' (JStr []) w)))"
  by (simp add: reveal_def)

section \<open>What a callback preserves\<close>

text \<open>
  A relation between the states before and after that every method a callback may call
  respects is respected by the callback, however it ends.
\<close>

lemma write_with_rel:
  assumes refl: "\<And>w. R w w" and trans: "\<And>a b c. R a b \<Longrightarrow> R b c \<Longrightarrow> R a c"
    and flag: "\<And>w b. R w (w\<lparr>writing := b\<rparr>)"
    and reg: "\<And>w ps fs. R w (w\<lparr>promises := promises w @ ps, frames := frames w @ fs\<rparr>)"
    and cb: "\<And>f w'. func = Some f \<Longrightarrow> R w' (state_of (f w'))"
  shows "R w (snd (write_with func w))"
proof (cases "writing w")
  case True
  then show ?thesis by (simp add: write_with_def refl)
next
  case idle: False
  show ?thesis
  proof (cases func)
    case None
    then show ?thesis using idle by (simp add: write_with_def Let_def reg)
  next
    case (Some f)
    have start: "R w (w\<lparr>writing := True\<rparr>)" by (rule flag)
    have run: "R (w\<lparr>writing := True\<rparr>) (state_of (f (w\<lparr>writing := True\<rparr>)))"
      using Some by (rule cb)
    show ?thesis
    proof (cases "f (w\<lparr>writing := True\<rparr>)")
      case (Done w')
      have "R w w'" using trans [OF start run] Done by simp
      then have "R w (w'\<lparr>writing := False\<rparr>)" using flag trans by blast
      moreover have "R (w'\<lparr>writing := False\<rparr>)
          (w'\<lparr>writing := False\<rparr>\<lparr>promises := promises (w'\<lparr>writing := False\<rparr>) @ [Pending],
               frames := frames (w'\<lparr>writing := False\<rparr>) @ [WriteFrame (length (promises w'))]\<rparr>)"
        by (rule reg)
      ultimately have "R w (w'\<lparr>writing := False, promises := promises w' @ [Pending],
               frames := frames w' @ [WriteFrame (length (promises w'))]\<rparr>)"
        using trans by fastforce
      then show ?thesis using idle Some Done by (simp add: write_with_def Let_def)
    next
      case (Thrown e w')
      have "R w w'" using trans [OF start run] Thrown by simp
      then show ?thesis using idle Some Thrown by (simp add: write_with_def)
    qed
  qed
qed

lemma exec_Write_state:
  "state_of (exec (Write func) w) = snd (write_with (Some (\<lambda>w'. exec func w')) w)"
  by (cases "write_with (Some (\<lambda>w'. exec func w')) w") (simp split: sum.splits)

lemma exec_WriteNoFunc_state:
  "state_of (exec WriteNoFunc w) = snd (write_with None w)"
  by (cases "write_with None w") (simp split: sum.splits)

lemma exec_rel:
  assumes refl: "\<And>w. R w w" and trans: "\<And>a b c. R a b \<Longrightarrow> R b c \<Longrightarrow> R a c"
    and flag: "\<And>w b. R w (w\<lparr>writing := b\<rparr>)"
    and reg: "\<And>w ps fs. R w (w\<lparr>promises := promises w @ ps, frames := frames w @ fs\<rparr>)"
    and setters: "\<And>c w. R w (addClass c w)" "\<And>c w. R w (removeClass c w)"
      "\<And>k v w. R w (setAttribute k v w)" "\<And>k v w. R w (setProperty k v w)"
      "\<And>k v w. R w (setStyle k v w)"
  shows "R w (state_of (exec c w))"
proof (induction c w rule: exec.induct)
  case (3 a b w)
  show ?case
  proof (cases "exec a w")
    case (Done w')
    then show ?thesis using 3 trans by fastforce
  next
    case (Thrown e w')
    then show ?thesis using 3 by simp
  qed
next
  case (9 k v w)
  show ?case
    by (simp add: setAria_unfold refl setters) (meson setters trans)
next
  case (10 dontShow w)
  have aria: "R u (setAria k v u)" for k v u
    by (simp add: setAria_unfold refl setters) (meson setters trans)
  have "R w (if dontShow then w else setStyle ''display'' (JStr []) w)"
    by (simp add: refl setters)
  then show ?case
    unfolding exec.simps state_of.simps reveal_unfold
    by (meson aria setters trans)
next
  case (11 func w)
  show ?case using reg [where ps = "[Pending]"] by (simp add: read_def Let_def refl)
next
  case (12 func w)
  show ?case
    unfolding exec_Write_state
    by (rule write_with_rel [of R, OF refl trans flag reg]) (use 12 in auto)
next
  case (13 w)
  show ?case
    unfolding exec_WriteNoFunc_state
    by (rule write_with_rel [of R, OF refl trans flag reg]) auto
qed (simp_all add: refl setters)

lemma exec_element: "element (state_of (exec c w)) = element w"
  by (rule exec_rel [where R = "\<lambda>w w'. element w' = element w"])
     (simp_all add: addClass_def removeClass_def setAttribute_def setProperty_def setStyle_def)

lemma exec_reading: "reading (state_of (exec c w)) = reading w"
  by (rule exec_rel [where R = "\<lambda>w w'. reading w' = reading w"])
     (simp_all add: addClass_def removeClass_def setAttribute_def setProperty_def setStyle_def)

lemma exec_aria: "aria (state_of (exec c w)) = aria w"
  by (rule exec_rel [where R = "\<lambda>w w'. aria w' = aria w"])
     (simp_all add: addClass_def removeClass_def setAttribute_def setProperty_def setStyle_def)

lemma exec_promises: "\<exists>ps. promises (state_of (exec c w)) = promises w @ ps"
  by (rule exec_rel [where R = "\<lambda>w w'. \<exists>ps. promises w' = promises w @ ps"])
     (auto simp add: addClass_def removeClass_def setAttribute_def setProperty_def setStyle_def)


section \<open>Setters neither read nor write the element\<close>

lemma fold_element_free:
  assumes "\<And>x w. f x (w\<lparr>element := e\<rparr>) = (f x w)\<lparr>element := e\<rparr>"
  shows "fold f xs (w\<lparr>element := e\<rparr>) = (fold f xs w)\<lparr>element := e\<rparr>"
  by (induction xs arbitrary: w) (simp_all add: assms)

lemma setArias_queue_only: "same_but_queue w (setArias keys w)"
  unfolding setArias.simps
  by (rule fold_queue_only) (simp add: split_def setAria_queue_only)
lemma setAttributes_queue_only: "same_but_queue w (setAttributes m w)"
  unfolding setAttributes_def
  by (rule fold_queue_only) (simp add: split_def setAttribute_queue_only)
lemma setProperties_queue_only: "same_but_queue w (setProperties m w)"
  unfolding setProperties_def
  by (rule fold_queue_only) (simp add: split_def setProperty_queue_only)
lemma setStyles_queue_only: "same_but_queue w (setStyles m w)"
  unfolding setStyles_def
  by (rule fold_queue_only) (simp add: split_def setStyle_queue_only)

lemma addClass_element_free: "addClass c (w\<lparr>element := e\<rparr>) = (addClass c w)\<lparr>element := e\<rparr>"
  by (simp add: addClass_def)
lemma removeClass_element_free:
  "removeClass c (w\<lparr>element := e\<rparr>) = (removeClass c w)\<lparr>element := e\<rparr>"
  by (simp add: removeClass_def)
lemma setAttribute_element_free:
  "setAttribute k v (w\<lparr>element := e\<rparr>) = (setAttribute k v w)\<lparr>element := e\<rparr>"
  by (simp add: setAttribute_def)
lemma setProperty_element_free:
  "setProperty k v (w\<lparr>element := e\<rparr>) = (setProperty k v w)\<lparr>element := e\<rparr>"
  by (simp add: setProperty_def)
lemma setStyle_element_free:
  "setStyle k v (w\<lparr>element := e\<rparr>) = (setStyle k v w)\<lparr>element := e\<rparr>"
  by (simp add: setStyle_def)
lemma setAria_element_free:
  "setAria k v (w\<lparr>element := e\<rparr>) = (setAria k v w)\<lparr>element := e\<rparr>"
  by (simp add: setAria_unfold setAttribute_element_free)
lemma setArias_element_free:
  "setArias m (w\<lparr>element := e\<rparr>) = (setArias m w)\<lparr>element := e\<rparr>"
  unfolding setArias.simps
  by (rule fold_element_free) (simp add: split_def setAria_element_free)
lemma setAttributes_element_free:
  "setAttributes m (w\<lparr>element := e\<rparr>) = (setAttributes m w)\<lparr>element := e\<rparr>"
  unfolding setAttributes_def
  by (rule fold_element_free) (simp add: split_def setAttribute_element_free)
lemma setProperties_element_free:
  "setProperties m (w\<lparr>element := e\<rparr>) = (setProperties m w)\<lparr>element := e\<rparr>"
  unfolding setProperties_def
  by (rule fold_element_free) (simp add: split_def setProperty_element_free)
lemma setStyles_element_free:
  "setStyles m (w\<lparr>element := e\<rparr>) = (setStyles m w)\<lparr>element := e\<rparr>"
  unfolding setStyles_def
  by (rule fold_element_free) (simp add: split_def setStyle_element_free)

lemmas queue_only =
  addClass_queue_only removeClass_queue_only setAttribute_queue_only setAttributes_queue_only
  setProperty_queue_only setProperties_queue_only setStyle_queue_only setStyles_queue_only
  setAria_queue_only setArias_queue_only

lemmas element_free =
  addClass_element_free removeClass_element_free setAttribute_element_free
  setAttributes_element_free setProperty_element_free setProperties_element_free
  setStyle_element_free setStyles_element_free setAria_element_free setArias_element_free

lemma read_element: "element (snd (read func w)) = element w"
  by (simp add: read_def Let_def)

lemma write_element: "element (snd (write func w)) = element w"
  unfolding write_def
  by (rule write_with_rel [where R = "\<lambda>w w'. element w' = element w"])
     (auto simp: exec_element)

text \<open>
  Claim C10. Every synchronous setter (\<^verbatim>\<open>addClass\<close>, \<^verbatim>\<open>removeClass\<close>,
  \<^verbatim>\<open>setAttribute\<close>, \<^verbatim>\<open>setAttributes\<close>, \<^verbatim>\<open>setProperty\<close>,
  \<^verbatim>\<open>setProperties\<close>, \<^verbatim>\<open>setStyle\<close>, \<^verbatim>\<open>setStyles\<close>,
  \<^verbatim>\<open>setAria\<close>, \<^verbatim>\<open>setArias\<close>) changes nothing but the pending queue,
  and neither reads nor writes the target element: replacing the element before the call
  or after it gives the same state. Registering a read or a write, and any callback run
  by \<^verbatim>\<open>write\<close>, leave the element as it is as well (\<open>read_element\<close>,
  \<open>write_element\<close>, \<open>exec_element\<close>); of the methods modelled, only
  \<^verbatim>\<open>processQueue\<close> writes to it.
\<close>

theorem setters_touch_only_queue:
  assumes "f \<in> {addClass c, removeClass c, setAttribute k v, setAttributes m,
                 setProperty k v, setProperties m, setStyle k v, setStyles m,
                 setAria k v, setArias m}"
  shows "same_but_queue w (f w) \<and> f (w\<lparr>element := e\<rparr>) = (f w)\<lparr>element := e\<rparr>"
  using assms by (auto simp: queue_only element_free)

theorem setters_touch_only_queue_witness:
  "addClass ''x'' \<in> {addClass ''x'', removeClass ''x'', setAttribute ''k'' JNull,
       setAttributes [], setProperty ''k'' JNull, setProperties [], setStyle ''k'' JNull,
       setStyles [], setAria ''k'' JNull, setArias []}
   \<and> same_but_queue (Element (Some bare) True) (addClass ''x'' (Element (Some bare) True))
   \<and> addClass ''x'' ((Element (Some bare) True)\<lparr>element := None\<rparr>)
       = (addClass ''x'' (Element (Some bare) True))\<lparr>element := None\<rparr>"
  using setters_touch_only_queue [where f = "addClass ''x''" and c = "''x''" and k = "''k''"
      and v = JNull and m = "[]" and w = "Element (Some bare) True" and e = None]
  by simp

text \<open>
  Claim C9. With \<^verbatim>\<open>Toolkit.aria\<close> switched off, \<^verbatim>\<open>setAria(key, value)\<close>
  returns the wrapper as it was, for every key and value: the element, and so its
  accessibility attributes, and the pending queue are unchanged.
\<close>

theorem setAria_disabled: "\<not> aria w \<Longrightarrow> setAria key v w = w"
  by (simp add: setAria_unfold)

theorem setAria_disabled_witness:
  "\<not> aria (Element (Some bare) False)
   \<and> setAria ''hidden'' (JBool True) (Element (Some bare) False) = Element (Some bare) False"
  using setAria_disabled [of "Element (Some bare) False" "''hidden''" "JBool True"]
  by (simp add: Element_def resetQueue_def)

section \<open>Reentrancy\<close>

text \<open>
  Claim C3. A call of \<^verbatim>\<open>read\<close> while \<^verbatim>\<open>reading\<close> is true, and a call of
  \<^verbatim>\<open>write\<close> while \<^verbatim>\<open>writing\<close> is true, returns \<^verbatim>\<open>null\<close> and leaves
  the whole state as it was: no promise is created and no frame callback is registered,
  so the callback is not run then, and any number of frame ticks later go as if the call
  had not been made.
\<close>

theorem nested_call_refused:
  "(reading w \<longrightarrow> read func w = (Null, w) \<and> ticks h n (snd (read func w)) = ticks h n w)
   \<and> (writing w \<longrightarrow> write func' w = (Inr Null, w) \<and> ticks h n (snd (write func' w)) = ticks h n w)"
  by (simp add: read_def write_def write_with_def)

theorem nested_call_refused_witness:
  "reading ((Element (Some bare) True)\<lparr>reading := True\<rparr>)
   \<and> read (Throw ''x'') ((Element (Some bare) True)\<lparr>reading := True\<rparr>)
       = (Null, (Element (Some bare) True)\<lparr>reading := True\<rparr>)
   \<and> writing ((Element (Some bare) True)\<lparr>writing := True\<rparr>)
   \<and> write (Some (Throw ''x'')) ((Element (Some bare) True)\<lparr>writing := True\<rparr>)
       = (Inr Null, (Element (Some bare) True)\<lparr>writing := True\<rparr>)"
  using nested_call_refused [where w = "(Element (Some bare) True)\<lparr>reading := True\<rparr>"
        and func = "Throw ''x''" and h = sample and n = 0 and func' = None]
    nested_call_refused [where w = "(Element (Some bare) True)\<lparr>writing := True\<rparr>"
        and func = Skip and h = sample and n = 0 and func' = "Some (Throw ''x'')"]
  by (simp add: Element_def resetQueue_def)

text \<open>
  The scenario of the specification: a read callback that calls \<^verbatim>\<open>read\<close> again.
  After the tick no callback is registered; the inner callback is lost.
\<close>

lemma nested_read_in_callback:
  "tick h (snd (read (Read func) (Element el a)))
     = (Element el a)\<lparr>promises := [Fulfilled Instance]\<rparr>"
  by (simp add: read_def tick_def Element_def resetQueue_def settlePromise_def)

section \<open>Queries\<close>

text \<open>
  Claim C7. \<^verbatim>\<open>hasClass(name)\<close> tells whether the class is on the target now,
  whatever the pending queue holds; a pending \<^verbatim>\<open>addClass\<close> or
  \<^verbatim>\<open>removeClass\<close> does not change the answer, and after \<^verbatim>\<open>addClass(c)\<close>
  without a flush the answer for \<open>c\<close> is false when the target did not carry \<open>c\<close>.
\<close>

theorem hasClass_reads_target_only:
  "element w = Some el \<Longrightarrow>
     hasClass h c (w\<lparr>queue := q\<rparr>) = Inr (contains h c el)
     \<and> hasClass h c (addClass x w) = hasClass h c w
     \<and> hasClass h c (removeClass x w) = hasClass h c w
     \<and> (\<not> contains h c el \<longrightarrow> hasClass h c (addClass c w) = Inr False)"
  by (simp add: hasClass_def addClass_def removeClass_def)

theorem hasClass_reads_target_only_witness:
  "element (Element (Some bare) True) = Some bare
   \<and> \<not> contains sample ''x'' bare
   \<and> hasClass sample ''x'' (addClass ''x'' (Element (Some bare) True)) = Inr False"
  using hasClass_reads_target_only
    [of "Element (Some bare) True" bare sample "''x''" "queue (Element (Some bare) True)" "''x''"]
  by (simp add: Element_def resetQueue_def sample_def bare_def)

section \<open>Callbacks that throw\<close>

text \<open>
  A callback never clears a flag that is set when it starts: \<^verbatim>\<open>reading\<close> is not
  assigned by any method a callback can call (\<open>exec_reading\<close>), and a nested
  \<^verbatim>\<open>write\<close> returns before it assigns \<^verbatim>\<open>writing\<close>.
\<close>

lemma exec_writing: "writing w \<Longrightarrow> writing (state_of (exec c w))"
proof (induction c w rule: exec.induct)
  case (3 a b w)
  then show ?case by (cases "exec a w") auto
next
  case (9 k v w)
  then show ?case using setAria_queue_only [of w k v] by (simp add: same_but_queue_def)
next
  case (10 dontShow w)
  have "same_but_queue w (if dontShow then w else setStyle ''display'' (JStr []) w)"
    using setStyle_queue_only [of w "''display''" "JStr []"] by (simp add: same_but_queue_def)
  then have "same_but_queue w (reveal dontShow w)"
    unfolding reveal_unfold
    by (meson same_but_queue_trans setAria_queue_only addClass_queue_only removeClass_queue_only)
  then show ?case using 10 by (simp add: same_but_queue_def)
qed (simp_all add: addClass_def removeClass_def setAttribute_def setProperty_def setStyle_def
      read_def write_with_def Let_def)

text \<open>
  So a read callback that throws leaves \<^verbatim>\<open>reading\<close> true, and a
  \<^verbatim>\<open>read\<close> called then returns \<^verbatim>\<open>null\<close>; a write callback that throws leaves
  \<^verbatim>\<open>writing\<close> true, and a \<^verbatim>\<open>write\<close> called then returns \<^verbatim>\<open>null\<close>.
\<close>

lemma read_flag_stuck:
  assumes "exec func (w\<lparr>reading := True\<rparr>) = Thrown e w'"
  shows "reading (runFrame h (ReadFrame func p) w)
         \<and> fst (read func' (runFrame h (ReadFrame func p) w)) = Null"
proof -
  have "reading w'"
    using exec_reading [of func "w\<lparr>reading := True\<rparr>"] assms by simp
  then have "reading (runFrame h (ReadFrame func p) w)"
    using assms by (simp add: settlePromise_def)
  then show ?thesis by (simp add: read_def)
qed

lemma write_flag_stuck:
  assumes "\<not> writing w" and "exec func (w\<lparr>writing := True\<rparr>) = Thrown e w'"
  shows "write (Some func) w = (Inl e, w') \<and> writing w' \<and> write func' w' = (Inr Null, w')"
proof -
  have "writing w'"
    using exec_writing [of "w\<lparr>writing := True\<rparr>" func] assms by simp
  then show ?thesis
    using assms by (simp add: write_def write_with_def)
qed

text \<open>
  Claim C2 says that after a callback throws inside \<^verbatim>\<open>read\<close> or \<^verbatim>\<open>write\<close>
  the flag is false again and the next call succeeds. The code run on a callback that
  throws: after the tick of \<^verbatim>\<open>read\<close> the flag \<^verbatim>\<open>reading\<close> is true and the
  next \<^verbatim>\<open>read\<close> returns \<^verbatim>\<open>null\<close>; \<^verbatim>\<open>write\<close> ends by the callback's
  exception with \<^verbatim>\<open>writing\<close> true, and the next \<^verbatim>\<open>write\<close> returns
  \<^verbatim>\<open>null\<close>.
\<close>

theorem throwing_callback_leaves_flag_set:
  "reading (tick sample (snd (read (Throw ''boom'') (Element (Some bare) True))))
   \<and> fst (read Skip (tick sample (snd (read (Throw ''boom'') (Element (Some bare) True))))) = Null
   \<and> fst (write (Some (Throw ''boom'')) (Element (Some bare) True)) = Inl (UserError ''boom'')
   \<and> writing (snd (write (Some (Throw ''boom'')) (Element (Some bare) True)))
   \<and> fst (write None (snd (write (Some (Throw ''boom'')) (Element (Some bare) True)))) = Inr Null"
  by (simp add: read_def tick_def write_def write_with_def Element_def resetQueue_def
      settlePromise_def)

text \<open>
  Claim C6 says that an error thrown by a read or write callback is caught and the
  promise of that call is rejected with the wrapper. The code run on a write callback
  that throws: \<^verbatim>\<open>write\<close> ends by that exception; no promise is created and no
  frame callback is registered.
\<close>

theorem write_callback_error_escapes:
  "write (Some (Throw ''boom'')) (Element (Some bare) True)
     = (Inl (UserError ''boom''), (Element (Some bare) True)\<lparr>writing := True\<rparr>)
   \<and> promises (snd (write (Some (Throw ''boom'')) (Element (Some bare) True))) = []
   \<and> frames (snd (write (Some (Throw ''boom'')) (Element (Some bare) True))) = []"
  by (simp add: write_def write_with_def Element_def resetQueue_def)

text \<open>
  For \<^verbatim>\<open>read\<close> the statement of the claim holds: the exception of the callback
  is caught in the frame callback, and the promise \<^verbatim>\<open>read\<close> returned is rejected
  with the wrapper, not with the error.
\<close>

lemma read_registers:
  "\<not> reading w \<Longrightarrow>
     read func w = (Promise (length (promises w)),
       w\<lparr>promises := promises w @ [Pending],
         frames := frames w @ [ReadFrame func (length (promises w))]\<rparr>)"
  by (simp add: read_def Let_def)

lemma read_callback_error_rejects:
  assumes "p < length (promises w)" and "promises w ! p = Pending"
    and "exec func (w\<lparr>reading := True\<rparr>) = Thrown e w'"
  shows "promises (runFrame h (ReadFrame func p) w) ! p = Rejected Instance"
proof -
  obtain ps where ps: "promises w' = promises w @ ps"
    using exec_promises [of func "w\<lparr>reading := True\<rparr>"] assms(3) by auto
  then have "p < length (promises w')" and "promises w' ! p = Pending"
    using assms(1,2) by (simp_all add: nth_append)
  then show ?thesis
    using assms(3) by (simp add: settlePromise_def)
qed

lemma read_then_tick_rejects:
  assumes "\<not> reading w" and "frames w = []"
    and "exec func (w\<lparr>promises := promises w @ [Pending], frames := [], reading := True\<rparr>)
           = Thrown e w'"
  shows "fst (read func w) = Promise (length (promises w))
         \<and> promises (tick h (snd (read func w))) ! length (promises w) = Rejected Instance"
proof -
  let ?w1 = "w\<lparr>promises := promises w @ [Pending], frames := []\<rparr>"
  have "tick h (snd (read func w)) = runFrame h (ReadFrame func (length (promises w))) ?w1"
    using assms(1,2) by (simp add: read_registers tick_def)
  moreover have "promises (runFrame h (ReadFrame func (length (promises w))) ?w1)
      ! length (promises w) = Rejected Instance"
    by (rule read_callback_error_rejects [where e = e and w' = w']) (use assms(3) in simp_all)
  ultimately show ?thesis
    using assms(1) by (simp add: read_registers)
qed

section \<open>The queue object\<close>

lemma set_forOwn: "set (forOwn obj) = set obj"
  by (auto simp: forOwn_def)

lemma forOwn_no_index:
  "list_all (\<lambda>kv. \<not> is_array_index (fst kv)) obj \<Longrightarrow> forOwn obj = obj"
  by (simp add: forOwn_def list_all_iff)


lemma queue_keys_no_index:
  "\<not> is_array_index ''attributes''" "\<not> is_array_index ''properties''"
  "\<not> is_array_index ''styles''" "\<not> is_array_index ''addClass''"
  "\<not> is_array_index ''removeClass''"
  by (simp_all add: is_array_index_def is_digit_def)

lemma class_entry_no_index: "class_entry kv \<Longrightarrow> \<not> is_array_index (fst kv)"
  by (cases kv rule: class_entry.cases) (auto simp: queue_keys_no_index)

lemma map_of_put: "map_of (put k v m) k' = (if k' = k then Some v else map_of m k')"
  by (induction m) auto

lemma keys_put:
  "map fst (put k v m) = (if k \<in> set (map fst m) then map fst m else map fst m @ [k])"
  by (induction m) (auto simp: rev_image_eqI)

lemma distinct_put: "distinct (map fst m) \<Longrightarrow> distinct (map fst (put k v m))"
  by (simp add: keys_put)

lemma list_all_put: "list_all P m \<Longrightarrow> P (k, v) \<Longrightarrow> list_all P (put k v m)"
  by (induction m) auto

lemma put_fresh: "map_of m k = None \<Longrightarrow> put k v m = m @ [(k, v)]"
  by (induction m) (auto split: if_splits)

lemma distinct_assign:
  "distinct (map fst (own obj)) \<Longrightarrow> distinct (map fst (own (assign k v obj)))"
  by (simp add: assign_def distinct_put)

lemma map_of_assign:
  "k' \<noteq> ''__proto__'' \<Longrightarrow>
     map_of (own (assign k v obj)) k' = (if k' = k then Some v else map_of (own obj) k')"
  by (auto simp: assign_def map_of_put)

text \<open>
  The shape \<open>wf_queue\<close> holds after the constructor and after \<^verbatim>\<open>resetQueue\<close>, and
  every setter, every callback and every frame tick keep it.
\<close>

lemma wf_queueE:
  assumes "wf_queue q"
  obtains a p s cs where
    "q = (''attributes'', QObj a) # (''properties'', QObj p) # (''styles'', QObj s) # cs"
    "distinct (map fst (own a))" "distinct (map fst (own p))" "distinct (map fst (own s))"
    "distinct (map fst cs)" "list_all class_entry cs"
  using assms by (cases q rule: wf_queue.cases) auto

lemma wf_resetQueue: "wf_queue (queue (resetQueue w))"
  by (simp add: resetQueue_def)

lemma wf_addClass: "wf_queue (queue w) \<Longrightarrow> wf_queue (queue (addClass c w))"
  by (erule wf_queueE) (simp add: addClass_def distinct_put list_all_put)

lemma wf_removeClass: "wf_queue (queue w) \<Longrightarrow> wf_queue (queue (removeClass c w))"
  by (erule wf_queueE) (simp add: removeClass_def distinct_put list_all_put)

lemma wf_setAttribute: "wf_queue (queue w) \<Longrightarrow> wf_queue (queue (setAttribute k v w))"
  by (erule wf_queueE) (simp add: setAttribute_def pending_def distinct_assign)

lemma wf_setProperty: "wf_queue (queue w) \<Longrightarrow> wf_queue (queue (setProperty k v w))"
  by (erule wf_queueE) (simp add: setProperty_def pending_def distinct_assign)

lemma wf_setStyle: "wf_queue (queue w) \<Longrightarrow> wf_queue (queue (setStyle k v w))"
  by (erule wf_queueE) (simp add: setStyle_def pending_def distinct_assign)

lemma wf_exec: "wf_queue (queue w) \<Longrightarrow> wf_queue (queue (state_of (exec c w)))"
proof -
  have "wf_queue (queue w) \<longrightarrow> wf_queue (queue (state_of (exec c w)))"
    by (rule exec_rel [where R = "\<lambda>w w'. wf_queue (queue w) \<longrightarrow> wf_queue (queue w')"])
       (simp_all add: wf_addClass wf_removeClass wf_setAttribute wf_setProperty wf_setStyle)
  then show "wf_queue (queue w) \<Longrightarrow> wf_queue (queue (state_of (exec c w)))" by simp
qed

lemma queue_settlePromise [simp]: "queue (settlePromise p s w) = queue w"
  by (simp add: settlePromise_def)

lemma wf_processQueue:
  "wf_queue (queue w) \<Longrightarrow> wf_queue (queue (state_of (processQueue h w)))"
  by (simp add: processQueue_def wf_resetQueue split: option.splits prod.splits)

lemma wf_tick: "wf_queue (queue w) \<Longrightarrow> wf_queue (queue (tick h w))"
proof (cases "frames w")
  case Nil
  then show "wf_queue (queue w) \<Longrightarrow> ?thesis" by (simp add: tick_def)
next
  case (Cons f fs)
  assume wf: "wf_queue (queue w)"
  show ?thesis
  proof (cases f)
    case (ReadFrame func p)
    have "wf_queue (queue (state_of (exec func (w\<lparr>frames := fs, reading := True\<rparr>))))"
      by (rule wf_exec) (simp add: wf)
    then show ?thesis
      using Cons ReadFrame
      by (cases "exec func (w\<lparr>frames := fs, reading := True\<rparr>)") (simp_all add: tick_def)
  next
    case (WriteFrame p)
    have "wf_queue (queue (state_of (processQueue h (w\<lparr>frames := fs\<rparr>))))"
      by (rule wf_processQueue) (simp add: wf)
    then show ?thesis
      using Cons WriteFrame
      by (cases "processQueue h (w\<lparr>frames := fs\<rparr>)") (simp_all add: tick_def)
  qed
qed

lemma wf_Element: "wf_queue (queue (Element el a))"
  by (simp add: Element_def resetQueue_def)

section \<open>The flush\<close>

lemma mutations_wf:
  assumes "q = (''attributes'', QObj a) # (''properties'', QObj p) # (''styles'', QObj s) # cs"
    and "list_all class_entry cs"
  shows "mutations q =
      map (\<lambda>(k, v). AttrSet k v) (forOwn (own a)) @ map (\<lambda>(k, v). PropSet k v) (forOwn (own p))
      @ map (\<lambda>(k, v). StyleSet k v) (forOwn (own s)) @ concat (map mutation cs)"
proof -
  have "list_all (\<lambda>kv. \<not> is_array_index (fst kv)) cs"
    using assms(2) by (simp add: list_all_iff class_entry_no_index)
  then have "list_all (\<lambda>kv. \<not> is_array_index (fst kv)) q"
    by (simp add: assms(1) queue_keys_no_index)
  then have "forOwn q = q"
    by (rule forOwn_no_index)
  then show ?thesis
    by (simp add: mutations_def assms(1))
qed

lemma pending_wf:
  assumes "q = (''attributes'', QObj a) # (''properties'', QObj p) # (''styles'', QObj s) # cs"
  shows "pending ''attributes'' q = a" "pending ''properties'' q = p" "pending ''styles'' q = s"
  by (simp_all add: assms pending_def)




text \<open>
  The class entries of the queue after a sequence of calls of the two class setters:
  assigning them one by one gives \<open>entries\<close>.
\<close>

lemma first_seen_set [simp]: "set (first_seen xs) = set xs"
  by (induction xs) auto

lemma first_seen_distinct [simp]: "distinct (first_seen xs)"
  by (induction xs) (auto simp: distinct_removeAll)







text \<open>The queue after a sequence of setter calls.\<close>

lemma class_calls_simps [simp]:
  "class_calls [] = []"
  "class_calls (CallAddClass c # cs) = (Add, c) # class_calls cs"
  "class_calls (CallRemoveClass c # cs) = (Remove, c) # class_calls cs"
  "class_calls (Call kd k v # cs) = class_calls cs"
  by (simp_all add: class_calls_def map_filter_def)

lemma calls_simps [simp]:
  "calls [] w = w"
  "calls (c # cs) w = calls cs (apply_call c w)"
  by (simp_all add: calls_def)





text \<open>Evaluating the setters and a flush on the small host.\<close>

lemmas queue_eval =
  Element_def resetQueue_def addClass_def removeClass_def setAttribute_def setProperty_def
  setStyle_def pending_def assign_def

lemmas flush_eval =
  mutations_def forOwn_def is_array_index_def is_digit_def processQueue_def sample_def
  token_error_def is_space_def



section \<open>Add, remove, flush\<close>

text \<open>The small host meets what the properties ask of a host.\<close>

lemma token_list_sample: "token_list sample"
  by (auto simp: token_list_def sample_def split: option.splits)

lemma keeps_classes_sample:
  "keeps_classes sample (PropSet k v)" "keeps_classes sample (StyleSet k v)"
  "k \<noteq> ''class'' \<Longrightarrow> keeps_classes sample (AttrSet k v)"
  by (auto simp: keeps_classes_def sample_def split: if_splits)





section \<open>Reveal\<close>

text \<open>
  On a host with \<open>token_list\<close>, a run of calls that returns has changed the set of
  classes by its class-list calls alone, provided its other calls keep the class list.
\<close>

lemma class_step_other: "\<forall>x\<in>set ops. \<not> class_op x \<Longrightarrow> fold class_step ops S = S"
proof (induction ops arbitrary: S)
  case (Cons x ops)
  then show ?case by (cases x) simp_all
qed simp

lemma invoke_classes:
  assumes "token_list h" and "\<not> class_op x \<longrightarrow> keeps_classes h x"
    and "invoke h x t = (None, t')"
  shows "{c. contains h c t'} = class_step x {c. contains h c t}"
proof (cases "class_op x")
  case True
  then show ?thesis
    using assms(1,3) unfolding token_list_def
    by (cases x) (simp_all, blast+)
next
  case False
  then have "keeps_classes h x" using assms(2) by simp
  then have "contains h c t' = contains h c t" for c
    using assms(3) unfolding keeps_classes_def by blast
  then show ?thesis using False by (cases x) simp_all
qed

lemma run_classes:
  assumes "token_list h" and "\<forall>x\<in>set ops. \<not> class_op x \<longrightarrow> keeps_classes h x"
    and "run h ops t = (None, t')"
  shows "{c. contains h c t'} = fold class_step ops {c. contains h c t}"
  using assms(2,3)
proof (induction ops arbitrary: t)
  case Nil
  then show ?case by simp
next
  case (Cons x ops)
  from Cons.prems(2) obtain t1 where 1: "invoke h x t = (None, t1)"
    and 2: "run h ops t1 = (None, t')"
    by (auto split: prod.splits option.splits)
  have "{c. contains h c t1} = class_step x {c. contains h c t}"
    using assms(1) _ 1 by (rule invoke_classes) (use Cons.prems(1) in simp)
  moreover have "{c. contains h c t'} = fold class_step ops {c. contains h c t1}"
    using Cons.prems(1) 2 by (intro Cons.IH) simp_all
  ultimately show ?case by simp
qed

text \<open>The class entries of a reachable queue, and the queue after \<^verbatim>\<open>reveal(false)\<close>.\<close>

lemma class_entries_shapes:
  assumes "list_all class_entry cs" and "distinct (map fst cs)"
  shows "cs = [] \<or> (\<exists>x. cs = [(''addClass'', QStr x)]) \<or> (\<exists>y. cs = [(''removeClass'', QStr y)])
       \<or> (\<exists>x y. cs = [(''addClass'', QStr x), (''removeClass'', QStr y)])
       \<or> (\<exists>x y. cs = [(''removeClass'', QStr y), (''addClass'', QStr x)])"
proof (cases cs)
  case Nil
  then show ?thesis by simp
next
  case (Cons e es)
  note cs = Cons
  obtain k x where e: "e = (k, QStr x)" "k = ''addClass'' \<or> k = ''removeClass''"
    using assms(1) cs by (cases e rule: class_entry.cases) auto
  show ?thesis
  proof (cases es)
    case Nil
    then show ?thesis using cs e by auto
  next
    case (Cons e' es')
    note es = Cons
    obtain k' x' where e': "e' = (k', QStr x')" "k' = ''addClass'' \<or> k' = ''removeClass''"
      using assms(1) cs es by (cases e' rule: class_entry.cases) auto
    have ne: "k' \<noteq> k" using assms(2) cs es e e' by auto
    have "es' = []"
    proof (cases es')
      case (Cons e'' es'')
      obtain k'' x'' where e'': "e'' = (k'', QStr x'')" "k'' = ''addClass'' \<or> k'' = ''removeClass''"
        using assms(1) cs es Cons by (cases e'' rule: class_entry.cases) auto
      have "k'' \<noteq> k" "k'' \<noteq> k'" using assms(2) cs es Cons e e' e'' by auto
      then show ?thesis using e(2) e'(2) e''(2) ne by auto
    qed simp
    then show ?thesis using cs es e e' ne by auto
  qed
qed

lemma reveal_entries:
  assumes "list_all class_entry cs" and "distinct (map fst cs)"
  shows "put ''addClass'' (QStr ''show'') (put ''removeClass'' (QStr ''hide'') cs)
           = [(''removeClass'', QStr ''hide''), (''addClass'', QStr ''show'')]
       \<or> put ''addClass'' (QStr ''show'') (put ''removeClass'' (QStr ''hide'') cs)
           = [(''addClass'', QStr ''show''), (''removeClass'', QStr ''hide'')]"
  using class_entries_shapes [OF assms] by auto

lemma reveal_queue:
  assumes "queue w =
     (''attributes'', QObj a) # (''properties'', QObj p) # (''styles'', QObj s) # cs"
  shows "queue (reveal False w) =
     (''attributes'', QObj (if aria w then assign ''aria-hidden'' (JStr ''false'') a else a))
     # (''properties'', QObj p)
     # (''styles'', QObj (assign ''display'' (JStr []) s))
     # put ''addClass'' (QStr ''show'') (put ''removeClass'' (QStr ''hide'') cs)"
  by (simp add: reveal_def setAria_unfold setAttribute_def setStyle_def addClass_def
      removeClass_def pending_def assms)

lemma reveal_element: "element (reveal b w) = element w"
  using setAria_queue_only [of "addClass ''show'' (removeClass ''hide''
      (if b then w else setStyle ''display'' (JStr []) w))" "''hidden''" "JBool False"]
    setStyle_queue_only [of w "''display''" "JStr []"]
  by (simp add: reveal_unfold same_but_queue_def addClass_def removeClass_def)

text \<open>
  Claim C8, as amended. On every reachable queue, \<^verbatim>\<open>reveal(false)\<close> leaves pending
  together the style \<^verbatim>\<open>display\<close> set to the empty string, remove-class
  \<^verbatim>\<open>hide\<close>, add-class \<^verbatim>\<open>show\<close> and, when \<^verbatim>\<open>Toolkit.aria\<close> is on, the
  attribute \<^verbatim>\<open>aria-hidden\<close> set to \<^verbatim>\<open>"false"\<close>; when it is off, the pending
  attributes are as before. For a target whose classes are among \<^verbatim>\<open>hide\<close> and
  \<^verbatim>\<open>show\<close>, after a flush that completes, the class set is exactly \<^verbatim>\<open>show\<close>,
  provided \<^verbatim>\<open>classList.add\<close> and \<^verbatim>\<open>classList.remove\<close> add and remove their
  token and the other pending calls leave the class list as it is.
\<close>

theorem reveal_flush:
  assumes "wf_queue (queue w)"
  shows "map_of (own (pending ''styles'' (queue (reveal False w)))) ''display'' = Some (JStr [])
     \<and> map_of (queue (reveal False w)) ''removeClass'' = Some (QStr ''hide'')
     \<and> map_of (queue (reveal False w)) ''addClass'' = Some (QStr ''show'')
     \<and> (aria w \<longrightarrow>
          map_of (own (pending ''attributes'' (queue (reveal False w)))) ''aria-hidden''
            = Some (JStr ''false''))
     \<and> (\<not> aria w \<longrightarrow>
          pending ''attributes'' (queue (reveal False w)) = pending ''attributes'' (queue w))
     \<and> (token_list h
          \<and> (\<forall>x\<in>set (mutations (queue (reveal False w))). \<not> class_op x \<longrightarrow> keeps_classes h x)
          \<and> element w = Some el \<and> {c. contains h c el} \<subseteq> {''hide'', ''show''}
          \<and> processQueue h (reveal False w) = Done w'
        \<longrightarrow> (\<exists>el'. element w' = Some el' \<and> {c. contains h c el'} = {''show''}))"
proof -
  from assms obtain a p s cs where
    q: "queue w = (''attributes'', QObj a) # (''properties'', QObj p) # (''styles'', QObj s) # cs"
    and d: "distinct (map fst cs)" and cs: "list_all class_entry cs"
    by (rule wf_queueE)
  let ?cs = "put ''addClass'' (QStr ''show'') (put ''removeClass'' (QStr ''hide'') cs)"
  note q' = reveal_queue [OF q]
  have shape: "?cs = [(''removeClass'', QStr ''hide''), (''addClass'', QStr ''show'')]
       \<or> ?cs = [(''addClass'', QStr ''show''), (''removeClass'', QStr ''hide'')]"
    using cs d by (rule reveal_entries)
  have style: "map_of (own (pending ''styles'' (queue (reveal False w)))) ''display''
      = Some (JStr [])"
    by (simp add: pending_wf [OF q'] map_of_assign)
  have rem: "map_of (queue (reveal False w)) ''removeClass'' = Some (QStr ''hide'')"
    by (simp add: q' map_of_put)
  have add: "map_of (queue (reveal False w)) ''addClass'' = Some (QStr ''show'')"
    by (simp add: q' map_of_put)
  have on: "aria w \<longrightarrow>
      map_of (own (pending ''attributes'' (queue (reveal False w)))) ''aria-hidden''
        = Some (JStr ''false'')"
    by (simp add: pending_wf [OF q'] map_of_assign)
  have off: "\<not> aria w \<longrightarrow>
      pending ''attributes'' (queue (reveal False w)) = pending ''attributes'' (queue w)"
    by (simp add: pending_wf [OF q'] pending_wf [OF q])
  have flush: "\<exists>el'. element w' = Some el' \<and> {c. contains h c el'} = {''show''}"
    if tl: "token_list h"
      and keep: "\<forall>x\<in>set (mutations (queue (reveal False w))). \<not> class_op x \<longrightarrow> keeps_classes h x"
      and el: "element w = Some el" and start: "{c. contains h c el} \<subseteq> {''hide'', ''show''}"
      and fin: "processQueue h (reveal False w) = Done w'"
  proof -
    let ?ops = "mutations (queue (reveal False w))"
    from fin el obtain el' where r: "run h ?ops el = (None, el')"
      and w': "element w' = Some el'"
      by (auto simp: processQueue_def reveal_element resetQueue_def
          split: option.splits prod.splits)
    have "list_all class_entry ?cs"
      using shape by auto
    define pre where "pre =
        map (\<lambda>(k, v). AttrSet k v)
          (forOwn (own (if aria w then assign ''aria-hidden'' (JStr ''false'') a else a)))
        @ map (\<lambda>(k, v). PropSet k v) (forOwn (own p))
        @ map (\<lambda>(k, v). StyleSet k v) (forOwn (own (assign ''display'' (JStr []) s)))"
    have ops: "?ops = pre @ concat (map mutation ?cs)"
      using mutations_wf [OF q' \<open>list_all class_entry ?cs\<close>] by (simp add: pre_def)
    have pre: "\<forall>x\<in>set pre. \<not> class_op x"
      by (auto simp: pre_def)
    have "{c. contains h c el'} = fold class_step ?ops {c. contains h c el}"
      using tl keep r by (rule run_classes)
    also have "\<dots> = fold class_step (concat (map mutation ?cs)) {c. contains h c el}"
      by (simp add: ops class_step_other [OF pre])
    also have "\<dots> = {''show''}"
      using shape start by auto
    finally show ?thesis using w' by simp
  qed
  show ?thesis
    using style rem add on off flush by blast
qed

theorem reveal_flush_witness:
  "wf_queue (queue (Element (Some (bare\<lparr>classList := [''hide'']\<rparr>)) True))
   \<and> aria (Element (Some (bare\<lparr>classList := [''hide'']\<rparr>)) True)
   \<and> map_of (own (pending ''attributes''
          (queue (reveal False (Element (Some (bare\<lparr>classList := [''hide'']\<rparr>)) True)))))
        ''aria-hidden'' = Some (JStr ''false'')
   \<and> token_list sample
   \<and> processQueue sample (reveal False (Element (Some (bare\<lparr>classList := [''hide'']\<rparr>)) True))
       = Done (Element (Some (bare\<lparr>classList := [''show''],
                attrs := [(''aria-hidden'', JStr ''false'')],
                style := [(''display'', JStr [])]\<rparr>)) True)
   \<and> {c. contains sample c (bare\<lparr>classList := [''show''],
                attrs := [(''aria-hidden'', JStr ''false'')],
                style := [(''display'', JStr [])]\<rparr>)} = {''show''}
   \<and> \<not> aria (Element (Some bare) False)
   \<and> pending ''attributes'' (queue (reveal False (Element (Some bare) False)))
       = pending ''attributes'' (queue (Element (Some bare) False))"
proof -
  let ?w = "Element (Some (bare\<lparr>classList := [''hide'']\<rparr>)) True"
  let ?el = "bare\<lparr>classList := [''show''], attrs := [(''aria-hidden'', JStr ''false'')],
                style := [(''display'', JStr [])]\<rparr>"
  have wf: "wf_queue (queue ?w)" by (rule wf_Element)
  have on: "aria ?w" by (simp add: Element_def resetQueue_def)
  have ops: "mutations (queue (reveal False ?w))
      = [AttrSet ''aria-hidden'' (JStr ''false''), StyleSet ''display'' (JStr []),
         RemoveToken ''hide'', AddToken ''show'']"
    by (simp add: reveal_def setAria_unfold queue_eval flush_eval)
  have keep: "\<forall>x\<in>set (mutations (queue (reveal False ?w))).
      \<not> class_op x \<longrightarrow> keeps_classes sample x"
    by (simp add: ops keeps_classes_sample)
  have el: "element ?w = Some (bare\<lparr>classList := [''hide'']\<rparr>)"
    by (simp add: Element_def resetQueue_def)
  have start: "{c. contains sample c (bare\<lparr>classList := [''hide'']\<rparr>)} \<subseteq> {''hide'', ''show''}"
    by (auto simp: sample_def)
  have run: "processQueue sample (reveal False ?w) = Done (Element (Some ?el) True)"
    by (simp add: reveal_def setAria_unfold queue_eval flush_eval bare_def)
  have off: "\<not> aria (Element (Some bare) False)"
    by (simp add: Element_def resetQueue_def)
  have use: "map_of (own (pending ''attributes'' (queue (reveal False ?w)))) ''aria-hidden''
        = Some (JStr ''false'')
      \<and> (\<exists>el'. element (Element (Some ?el) True) = Some el'
            \<and> {c. contains sample c el'} = {''show''})"
    using reveal_flush [OF wf, of sample "bare\<lparr>classList := [''hide'']\<rparr>"
        "Element (Some ?el) True"] on token_list_sample keep el start run
    by blast
  have "element (Element (Some ?el) True) = Some ?el"
    by (simp add: Element_def resetQueue_def)
  with use have cls: "{c. contains sample c ?el} = {''show''}"
    by auto
  have same: "pending ''attributes'' (queue (reveal False (Element (Some bare) False)))
       = pending ''attributes'' (queue (Element (Some bare) False))"
    using reveal_flush [OF wf_Element, of "Some bare" False] off by blast
  show ?thesis
    using wf on use token_list_sample run cls off same by (intro conjI) blast+
qed

text \<open>
  Claim C8 as stated fails. With \<^verbatim>\<open>Toolkit.aria\<close> off, \<^verbatim>\<open>setAria\<close> returns at
  its guard and \<^verbatim>\<open>reveal(false)\<close> leaves no \<^verbatim>\<open>aria-hidden\<close> pending. With
  \<^verbatim>\<open>setAttribute("class", "big")\<close> pending on a target without classes, the flush
  sets that attribute first and the target ends with the classes \<^verbatim>\<open>big\<close> and
  \<^verbatim>\<open>show\<close>. With an attribute of empty name pending, \<^verbatim>\<open>setAttribute\<close> throws
  and the target stays without classes.
\<close>

theorem reveal_counterexample:
  "map_of (own (pending ''attributes'' (queue (reveal False (Element (Some bare) False)))))
     ''aria-hidden'' = None
   \<and> processQueue sample (reveal False (setAttribute ''class'' (JStr ''big'')
        (Element (Some bare) True)))
     = Done (Element (Some (bare\<lparr>classList := [''big'', ''show''],
              attrs := [(''class'', JStr ''big''), (''aria-hidden'', JStr ''false'')],
              style := [(''display'', JStr [])]\<rparr>)) True)
   \<and> {c. contains sample c (bare\<lparr>classList := [''big'', ''show''],
              attrs := [(''class'', JStr ''big''), (''aria-hidden'', JStr ''false'')],
              style := [(''display'', JStr [])]\<rparr>)} \<noteq> {''show''}
   \<and> processQueue sample (reveal False (setAttribute [] (JStr ''x'')
        (Element (Some bare) True)))
     = Thrown (DOMException ''InvalidCharacterError'')
         (reveal False (setAttribute [] (JStr ''x'') (Element (Some bare) True)))
   \<and> element (reveal False (setAttribute [] (JStr ''x'') (Element (Some bare) True)))
     = Some bare"
proof (intro conjI)
  show "map_of (own (pending ''attributes'' (queue (reveal False (Element (Some bare) False)))))
     ''aria-hidden'' = None"
    by (simp add: reveal_def setAria_unfold queue_eval)
  have t: "tokens ''big'' = [''big'']"
    by (simp add: tokens_def is_space_def)
  show "processQueue sample (reveal False (setAttribute ''class'' (JStr ''big'')
        (Element (Some bare) True)))
     = Done (Element (Some (bare\<lparr>classList := [''big'', ''show''],
              attrs := [(''class'', JStr ''big''), (''aria-hidden'', JStr ''false'')],
              style := [(''display'', JStr [])]\<rparr>)) True)"
    by (simp add: reveal_def setAria_unfold queue_eval flush_eval bare_def t)
  show "{c. contains sample c (bare\<lparr>classList := [''big'', ''show''],
              attrs := [(''class'', JStr ''big''), (''aria-hidden'', JStr ''false'')],
              style := [(''display'', JStr [])]\<rparr>)} \<noteq> {''show''}"
  proof
    assume eq: "{c. contains sample c (bare\<lparr>classList := [''big'', ''show''],
              attrs := [(''class'', JStr ''big''), (''aria-hidden'', JStr ''false'')],
              style := [(''display'', JStr [])]\<rparr>)} = {''show''}"
    have "''big'' \<in> {c. contains sample c (bare\<lparr>classList := [''big'', ''show''],
              attrs := [(''class'', JStr ''big''), (''aria-hidden'', JStr ''false'')],
              style := [(''display'', JStr [])]\<rparr>)}"
      by (simp add: sample_def)
    then have "''big'' \<in> {''show''}"
      by (simp only: eq)
    then show False by simp
  qed
  show "processQueue sample (reveal False (setAttribute [] (JStr ''x'')
        (Element (Some bare) True)))
     = Thrown (DOMException ''InvalidCharacterError'')
         (reveal False (setAttribute [] (JStr ''x'') (Element (Some bare) True)))"
    by (simp add: reveal_def setAria_unfold queue_eval flush_eval bare_def)
  show "element (reveal False (setAttribute [] (JStr ''x'') (Element (Some bare) True)))
     = Some bare"
    by (simp add: reveal_def setAria_unfold queue_eval)
qed

section \<open>Last write wins\<close>



lemma pending_queue_key_wf:
  assumes "q = (''attributes'', QObj a) # (''properties'', QObj p) # (''styles'', QObj s) # cs"
  shows "pending (queue_key kd) q = (case kd of Attribute \<Rightarrow> a | Property \<Rightarrow> p | Style \<Rightarrow> s)"
  by (cases kd) (simp_all add: pending_wf [OF assms])














end
